theory Spec2Isabelle
  imports Complex_Main
begin

section \<open>Sample arrays\<close>

text \<open>
  The transforms of soundscope work on numpy arrays of audio data as the import step
  delivers them: a one-dimensional array of shape \<open>(n,)\<close> for a mono file and a
  two-dimensional array of shape \<open>(n, 2)\<close> for a stereo file, one row per frame. The
  channel count travels beside the array as the string \<open>'1'\<close> or \<open>'2'\<close>.

  Samples are double precision numbers. A finite double is represented by the real
  number it denotes; \<open>abs\<close> and the comparison \<open>>\<close> are exact on doubles, so the silence
  mask is modelled without loss. Arithmetic that rounds is not modelled.
\<close>

datatype 'a ndarray = Mono "'a list" | Stereo "('a \<times> 'a) list"

datatype error = ValueError | ZeroDivisionError

text \<open>\<open>len(array)\<close>, that is \<open>array.shape[0]\<close>: the number of frames.\<close>

fun len :: "'a ndarray \<Rightarrow> nat" where
  "len (Mono xs) = length xs"
| "len (Stereo fs) = length fs"

text \<open>The channel tag the import step attaches to an array of that shape.\<close>

fun tag :: "'a ndarray \<Rightarrow> string" where
  "tag (Mono xs) = ''1''"
| "tag (Stereo fs) = ''2''"

text \<open>The frames in time order, each frame as the list of its channel samples.\<close>

fun frames :: "'a ndarray \<Rightarrow> 'a list list" where
  "frames (Mono xs) = map (\<lambda>x. [x]) xs"
| "frames (Stereo fs) = map (\<lambda>(l, r). [l, r]) fs"

text \<open>\<open>array.flatten()\<close> in row-major order: all samples, frame by frame.\<close>

fun samples :: "'a ndarray \<Rightarrow> 'a list" where
  "samples (Mono xs) = xs"
| "samples (Stereo fs) = concat (map (\<lambda>(l, r). [l, r]) fs)"

text \<open>The columns of an array, one per channel (access along axis 0).\<close>

fun columns :: "'a ndarray \<Rightarrow> 'a list list" where
  "columns (Mono xs) = [xs]"
| "columns (Stereo fs) = [map fst fs, map snd fs]"

section \<open>split (subpackages/util/split.py)\<close>

text \<open>
  \<open>split(array, channels, name)\<close> returns a string when \<open>channels == '1'\<close> and the tuple
  \<open>(left, right)\<close> otherwise. \<open>np.hsplit(array, 2)\<close> cuts a two-dimensional array into its
  two columns and a one-dimensional array into two halves along axis 0, raising
  \<open>ValueError\<close> when the length is odd; \<open>flatten(order='F')\<close> turns each piece into a
  one-dimensional array.
\<close>

datatype 'a split_value = Message string | Channels "'a list" "'a list"

definition hsplit2 :: "'a ndarray \<Rightarrow> error + ('a list \<times> 'a list)" where
  "hsplit2 array =
     (case array of
        Stereo fs \<Rightarrow> Inr (map fst fs, map snd fs)
      | Mono xs \<Rightarrow>
          if length xs mod 2 \<noteq> 0 then Inl ValueError
          else Inr (take (length xs div 2) xs, drop (length xs div 2) xs))"

definition split :: "'a ndarray \<Rightarrow> string \<Rightarrow> string \<Rightarrow> error + 'a split_value" where
  "split array channels name =
     (if channels = ''1''
      then Inr (Message (name @ '' is mono, import 2 channel audio array for splitting.''))
      else (case hsplit2 array of
              Inl e \<Rightarrow> Inl e
            | Inr (left, right) \<Rightarrow> Inr (Channels left right)))"

section \<open>reverse (soundscope/util/reverse.py)\<close>

text \<open>
  \<open>reverse(array, channels, subdivision=1)\<close> prints a message and falls off its end
  (returning \<open>None\<close>) when the length is not a multiple of \<open>subdivision\<close>; the result of
  a call is therefore the list of printed lines together with the returned value, or an
  exception. \<open>len(array) % 0\<close> raises \<open>ZeroDivisionError\<close>; a negative \<open>subdivision\<close>
  that divides the length reaches \<open>np.split\<close>, which raises \<open>ValueError\<close>.

  \<open>np.split(array, k)\<close> cuts along axis 0 into \<open>k\<close> sections of \<open>len(array) // k\<close> frames;
  \<open>np.flip(..., axis=1)\<close> stacks the sections and reverses the frames inside every
  section; \<open>np.row_stack\<close> puts the sections below one another. For a one-dimensional
  input that is a \<open>(k, n // k)\<close> matrix of sections, which \<open>reshape(array.size)\<close> flattens
  when \<open>channels == '1'\<close>.
\<close>

datatype 'a reverse_value = NoneValue | ArrayValue "'a ndarray" | RowsValue "'a list list"

definition np_split :: "'b list \<Rightarrow> nat \<Rightarrow> 'b list list" where
  "np_split ary sections =
     (let each_section = length ary div sections
      in map (\<lambda>i. take each_section (drop (i * each_section) ary)) [0..<sections])"

definition reverse :: "'a ndarray \<Rightarrow> string \<Rightarrow> int \<Rightarrow> error + (string list \<times> 'a reverse_value)" where
  "reverse array channels subdivision =
     (if subdivision = 0 then Inl ZeroDivisionError
      else if int (len array) mod subdivision \<noteq> 0
      then Inr ([''Error: array size not divisible by subdivision.''], NoneValue)
      else if subdivision < 0 then Inl ValueError
      else (case array of
              Mono xs \<Rightarrow>
                (let rev_array = map rev (np_split xs (nat subdivision))
                 in Inr ([], if channels = ''1'' then ArrayValue (Mono (concat rev_array))
                             else RowsValue rev_array))
            | Stereo fs \<Rightarrow>
                (let rev_array = concat (map rev (np_split fs (nat subdivision)))
                 in Inr ([], if channels = ''1'' then ArrayValue (Mono (samples (Stereo rev_array)))
                             else ArrayValue (Stereo rev_array)))))"

section \<open>trim (soundscope/util/trim.py)\<close>

text \<open>
  \<open>sys.float_info.epsilon\<close> is the difference between 1.0 and the next larger double,
  \<open>2^-52\<close>. \<open>mask\<close> compares every sample with it.
\<close>

definition epsilon :: real where
  "epsilon = 1 / 2 ^ 52"

definition mask_sample :: "real \<Rightarrow> bool" where
  "mask_sample v = (\<bar>v\<bar> > epsilon)"

definition mask :: "real ndarray \<Rightarrow> bool ndarray" where
  "mask array = map_ndarray mask_sample array"

text \<open>
  \<open>any\<close> and \<open>argmax\<close> along axis 0 work on each column. \<open>argmax\<close> gives the index of the
  first occurrence of the largest element and raises \<open>ValueError\<close> on an empty axis; the
  columns of an array are all as long as the array, so the check is made once.
  \<open>first_nonzero\<close> and \<open>last_nonzero\<close> are only ever called with \<open>axis = 0\<close>, which is fixed
  here; they return one index per channel. Their parameter \<open>mask\<close> is written \<open>msk\<close>, the
  name being taken by the function above.
\<close>

definition np_any :: "bool list \<Rightarrow> bool" where
  "np_any bs = list_ex (\<lambda>b. b) bs"

fun argmax :: "'b::linorder list \<Rightarrow> nat" where
  "argmax [] = 0"
| "argmax (x # xs) = (if list_all (\<lambda>y. y \<le> x) xs then 0 else Suc (argmax xs))"

definition first_nonzero :: "real ndarray \<Rightarrow> bool ndarray \<Rightarrow> int \<Rightarrow> error + int list" where
  "first_nonzero array msk invalid_val =
     (if len msk = 0 then Inl ValueError
      else Inr (map (\<lambda>c. if np_any c then int (argmax c) else invalid_val) (columns msk)))"

definition last_nonzero :: "real ndarray \<Rightarrow> bool ndarray \<Rightarrow> int \<Rightarrow> error + int list" where
  "last_nonzero array msk invalid_val =
     (if len msk = 0 then Inl ValueError
      else Inr (map (\<lambda>c. if np_any c then int (len array) - int (argmax (rev c)) - 1
                          else invalid_val) (columns msk)))"

text \<open>\<open>np.amin\<close> and \<open>np.amax\<close> over the per-channel indices.\<close>

fun amin :: "int list \<Rightarrow> error + int" where
  "amin [] = Inl ValueError"
| "amin (x # xs) = Inr (fold min xs x)"

fun amax :: "int list \<Rightarrow> error + int" where
  "amax [] = Inl ValueError"
| "amax (x # xs) = Inr (fold max xs x)"

text \<open>
  \<open>array[start:stop]\<close> along axis 0: a negative bound counts from the end, and both
  bounds are clipped to the array; the slice is empty when the upper bound is not above
  the lower one. \<open>.copy()\<close> does not change the value.
\<close>

definition slice_index :: "nat \<Rightarrow> int \<Rightarrow> nat" where
  "slice_index n i =
     (if i < 0 then (if i + int n < 0 then 0 else nat (i + int n))
      else if int n < i then n else nat i)"

definition slice_list :: "'a list \<Rightarrow> int \<Rightarrow> int \<Rightarrow> 'a list" where
  "slice_list xs start stop =
     (let lo = slice_index (length xs) start; hi = slice_index (length xs) stop
      in take (hi - lo) (drop lo xs))"

fun slice :: "'a ndarray \<Rightarrow> int \<Rightarrow> int \<Rightarrow> 'a ndarray" where
  "slice (Mono xs) start stop = Mono (slice_list xs start stop)"
| "slice (Stereo fs) start stop = Stereo (slice_list fs start stop)"

definition trim :: "real ndarray \<Rightarrow> error + real ndarray" where
  "trim array =
     (let mask1 = mask array in
      case first_nonzero array mask1 (- 1) of Inl e \<Rightarrow> Inl e | Inr firsts \<Rightarrow>
      case amin firsts of Inl e \<Rightarrow> Inl e | Inr start \<Rightarrow>
      case last_nonzero array mask1 (- 1) of Inl e \<Rightarrow> Inl e | Inr lasts \<Rightarrow>
      case amax lasts of Inl e \<Rightarrow> Inl e | Inr stop \<Rightarrow>
        Inr (slice array start (stop + 1)))"

text \<open>
  The crop that the specification asks of trim, following its words and not the code: a
  frame is non-silent when at least one of its channels is; the crop runs from the
  earliest non-silent frame through the latest one, inclusive, and leaves the frames as
  they are.
\<close>

definition nonsilent_frame :: "real list \<Rightarrow> bool" where
  "nonsilent_frame fr = list_ex mask_sample fr"

definition earliest_signal :: "real ndarray \<Rightarrow> nat" where
  "earliest_signal array = length (takeWhile (\<lambda>fr. \<not> nonsilent_frame fr) (frames array))"

definition latest_signal :: "real ndarray \<Rightarrow> nat" where
  "latest_signal array =
     len array - 1 - length (takeWhile (\<lambda>fr. \<not> nonsilent_frame fr) (rev (frames array)))"

fun crop :: "'a ndarray \<Rightarrow> nat \<Rightarrow> nat \<Rightarrow> 'a ndarray" where
  "crop (Mono xs) i j = Mono (take (Suc j - i) (drop i xs))"
| "crop (Stereo fs) i j = Stereo (take (Suc j - i) (drop i fs))"

text \<open>
  Modelled from the spec: the specification names the smallest representable positive
  double as the silence threshold. The code has no such constant; in IEEE 754 binary64 it
  is the subnormal \<open>2^-1074\<close>.
\<close>

definition smallest_positive_double :: real where
  "smallest_positive_double = 1 / 2 ^ 1074"

section \<open>midside (soundscope/dsp/midside.py)\<close>




section \<open>normalize (soundscope/dsp/normalize.py)\<close>

text \<open>
  Modelled from the spec: \<open>soundscope/dsp/normalize.py\<close> is not among the sources; only its
  unit test is. The peak is the largest absolute value over all samples of the flattened
  array; an array without samples has no non-zero sample, and its peak is taken as 0.
\<close>

definition peak :: "real ndarray \<Rightarrow> real" where
  "peak array = fold max (map abs (samples array)) 0"

text \<open>
  Modelled from the spec: a silent array (peak 0) is returned unchanged with the flag
  \<open>False\<close>; otherwise every sample is divided by the peak and the flag is \<open>True\<close>.
\<close>

definition normalize :: "real ndarray \<Rightarrow> real ndarray \<times> bool" where
  "normalize array =
     (let p = peak array
      in if p = 0 then (array, False) else (map_ndarray (\<lambda>v. v / p) array, True))"

section \<open>Properties of split\<close>

text \<open>
  C6. For a stereo array of \<open>N\<close> frames, split returns two mono sequences \<open>L\<close> and \<open>R\<close>
  of length \<open>N\<close> each, in the original time order, and pairing \<open>L[i]\<close> with \<open>R[i]\<close> for
  every \<open>i\<close> gives the input back; splitting \<open>[[1,4],[2,5],[3,6]]\<close> gives
  \<open>([1,2,3], [4,5,6])\<close>.
\<close>

theorem split_stereo_roundtrip:
  "(\<exists>L R. split (Stereo fs) ''2'' name = Inr (Channels L R)
      \<and> length L = len (Stereo fs) \<and> length R = len (Stereo fs)
      \<and> Stereo (zip L R) = Stereo fs)
   \<and> split (Stereo [(1, 4), (2, 5), (3, 6 :: real)]) ''2'' name
       = Inr (Channels [1, 2, 3] [4, 5, 6])"
  by (simp add: split_def hsplit2_def zip_map_fst_snd)

text \<open>
  C8 as claimed: on a mono array split fails with an error value and never returns a
  string where the two channel arrays are expected. The code does the opposite at
  \<open>split([1,2,3], '1', 'a.wav')\<close>: no exception is raised and a string is returned.
\<close>

theorem split_mono_counterexample:
  "\<not> isl (split (Mono [1, 2, 3 :: real]) ''1'' ''a.wav'')
   \<and> split (Mono [1, 2, 3 :: real]) ''1'' ''a.wav''
       = Inr (Message ''a.wav is mono, import 2 channel audio array for splitting.'')"
  by (simp add: split_def)

text \<open>
  C8 as amended: for every mono array, passed with its channel tag \<open>'1'\<close>, split raises no
  exception and returns the string made of the file name followed by
  \<open> is mono, import 2 channel audio array for splitting.\<close>
\<close>

theorem split_mono_message:
  "split (Mono xs) ''1'' name
     = Inr (Message (name @ '' is mono, import 2 channel audio array for splitting.''))"
  by (simp add: split_def)

section \<open>Sections of a list\<close>

lemma concat_np_split_aux:
  "concat (map (\<lambda>i. take m (drop (i * m) xs)) [0..<n]) = take (n * m) xs"
proof (induction n)
  case 0
  show ?case by simp
next
  case (Suc n)
  have "take (Suc n * m) xs = take (n * m + m) xs" by (simp add: add.commute)
  also have "\<dots> = take (n * m) xs @ take m (drop (n * m) xs)" by (rule take_add)
  finally show ?case using Suc by simp
qed

lemma concat_np_split:
  assumes "0 < n" "n dvd length xs"
  shows "concat (np_split xs n) = xs"
  using assms by (simp add: np_split_def Let_def concat_np_split_aux)

lemma length_np_split: "length (np_split xs n) = n"
  by (simp add: np_split_def Let_def)

lemma np_split_lengths:
  assumes "0 < n" "n dvd length xs" "s \<in> set (np_split xs n)"
  shows "length s = length xs div n"
proof -
  let ?m = "length xs div n"
  from assms(3) obtain i where i: "i < n" and s: "s = take ?m (drop (i * ?m) xs)"
    by (auto simp: np_split_def Let_def)
  have "n * ?m = length xs" using assms(2) by simp
  moreover have "Suc i * ?m \<le> n * ?m" using i by (intro mult_le_mono1) simp
  ultimately have "i * ?m + ?m \<le> length xs" by simp
  then show ?thesis using s by simp
qed

lemma np_split_concat_aux:
  assumes "\<forall>s\<in>set segs. length s = m"
  shows "map (\<lambda>i. take m (drop (i * m) (concat segs))) [0..<length segs] = segs"
  using assms
proof (induction segs)
  case Nil
  show ?case by simp
next
  case (Cons s segs)
  have ls: "length s = m" using Cons.prems by simp
  have shift: "take m (drop (Suc i * m) (concat (s # segs))) = take m (drop (i * m) (concat segs))" for i
    using ls by simp
  have "map (\<lambda>i. take m (drop (i * m) (concat (s # segs)))) [0..<length (s # segs)]
        = take m (drop (0 * m) (concat (s # segs)))
          # map (\<lambda>i. take m (drop (Suc i * m) (concat (s # segs)))) [0..<length segs]"
    unfolding length_Cons map_upt_Suc ..
  also have "\<dots> = s # map (\<lambda>i. take m (drop (i * m) (concat segs))) [0..<length segs]"
    unfolding shift using ls by simp
  also have "\<dots> = s # segs" using Cons by simp
  finally show ?case .
qed

lemma np_split_concat:
  assumes "0 < n" "length segs = n" "\<forall>s\<in>set segs. length s = m"
  shows "np_split (concat segs) n = segs"
proof -
  have "length (concat segs) = n * m"
    using assms(2,3) by (induction segs arbitrary: n) auto
  then have "length (concat segs) div n = m" using assms(1) by simp
  then show ?thesis
    using np_split_concat_aux[OF assms(3)] assms(2) by (simp add: np_split_def Let_def)
qed

lemma reverse_frames_twice:
  assumes "0 < n" "n dvd length xs"
  shows "concat (map rev (np_split (concat (map rev (np_split xs n))) n)) = xs"
proof -
  have "np_split (concat (map rev (np_split xs n))) n = map rev (np_split xs n)"
    using assms by (intro np_split_concat[where m = "length xs div n"])
      (auto simp: length_np_split np_split_lengths)
  then show ?thesis using assms by (simp add: rev_map[symmetric] comp_def concat_np_split o_def)
qed

section \<open>Properties of reverse\<close>

lemma mod_zero_nat_dvd:
  assumes "0 < n" "int k mod n = 0"
  shows "0 < nat n \<and> nat n dvd k"
proof -
  from assms(2) have "n dvd int k" by (simp add: dvd_eq_mod_eq_0)
  then have "int (nat n) dvd int k" using assms(1) by simp
  then have "nat n dvd k" by (simp only: int_dvd_int_iff)
  then show ?thesis using assms(1) by simp
qed

lemma reverse_divisible:
  assumes "0 < n" "int (len x) mod n = 0"
  shows "reverse x (tag x) n =
     Inr ([], ArrayValue (case x of
        Mono xs \<Rightarrow> Mono (concat (map rev (np_split xs (nat n))))
      | Stereo fs \<Rightarrow> Stereo (concat (map rev (np_split fs (nat n))))))"
  using assms by (cases x) (simp_all add: reverse_def Let_def)

lemma segments_of_frames:
  assumes "0 < k" "k dvd length fs"
  shows "length (map (map g) (np_split fs k)) = k
     \<and> (\<forall>s\<in>set (map (map g) (np_split fs k)). length s = length fs div k)
     \<and> concat (map (map g) (np_split fs k)) = map g fs
     \<and> map g (concat (map rev (np_split fs k))) = concat (map rev (map (map g) (np_split fs k)))"
proof -
  have "concat (map (map g) (np_split fs k)) = map g (concat (np_split fs k))"
    by (simp add: map_concat)
  then have c: "concat (map (map g) (np_split fs k)) = map g fs"
    using assms by (simp add: concat_np_split)
  have r: "map g (concat (map rev (np_split fs k))) = concat (map rev (map (map g) (np_split fs k)))"
    by (simp add: map_concat rev_map comp_def)
  show ?thesis
    using c r assms by (auto simp: length_np_split np_split_lengths)
qed

lemma length_concat_rev: "length (concat (map rev xss)) = length (concat xss)"
  by (simp add: length_concat comp_def)

text \<open>
  C4. When \<open>subdivision\<close> is positive and divides the number of frames, reverse cuts the
  array along the time axis into \<open>subdivision\<close> contiguous segments of equal length,
  reverses the frames inside each segment and leaves every frame and the order of the
  segments as they were. With \<open>subdivision = 1\<close>, the default, the whole array is
  reversed, and \<open>reverse([1,2,3,4], subdivision=2)\<close> is \<open>[2,1,4,3]\<close>.
\<close>

theorem reverse_blockwise:
  "(0 < n \<and> int (len x) mod n = 0 \<longrightarrow>
      (\<exists>y segs. reverse x (tag x) n = Inr ([], ArrayValue y)
         \<and> tag y = tag x
         \<and> length segs = nat n
         \<and> (\<forall>s\<in>set segs. length s = len x div nat n)
         \<and> concat segs = frames x
         \<and> frames y = concat (map rev segs)))
   \<and> (\<exists>y. reverse x (tag x) 1 = Inr ([], ArrayValue y)
         \<and> tag y = tag x \<and> frames y = rev (frames x))
   \<and> reverse (Mono [1, 2, 3, 4 :: real]) ''1'' 2 = Inr ([], ArrayValue (Mono [2, 1, 4, 3]))"
proof (intro conjI impI)
  assume a: "0 < n \<and> int (len x) mod n = 0"
  then have k: "0 < nat n" "nat n dvd len x"
    using mod_zero_nat_dvd[of n "len x"] by simp_all
  show "\<exists>y segs. reverse x (tag x) n = Inr ([], ArrayValue y)
         \<and> tag y = tag x
         \<and> length segs = nat n
         \<and> (\<forall>s\<in>set segs. length s = len x div nat n)
         \<and> concat segs = frames x
         \<and> frames y = concat (map rev segs)"
  proof (cases x)
    case (Mono xs)
    from k have k': "0 < nat n" "nat n dvd length xs" using Mono by simp_all
    show ?thesis
      using reverse_divisible[of n x] a segments_of_frames[OF k', of "\<lambda>v. [v]"] Mono
      by (intro exI[of _ "Mono (concat (map rev (np_split xs (nat n))))"]
                exI[of _ "map (map (\<lambda>v. [v])) (np_split xs (nat n))"]) simp
  next
    case (Stereo fs)
    from k have k': "0 < nat n" "nat n dvd length fs" using Stereo by simp_all
    show ?thesis
      using reverse_divisible[of n x] a segments_of_frames[OF k', of "\<lambda>(l, r). [l, r]"] Stereo
      by (intro exI[of _ "Stereo (concat (map rev (np_split fs (nat n))))"]
                exI[of _ "map (map (\<lambda>(l, r). [l, r])) (np_split fs (nat n))"]) simp
  qed
next
  show "\<exists>y. reverse x (tag x) 1 = Inr ([], ArrayValue y) \<and> tag y = tag x \<and> frames y = rev (frames x)"
    by (cases x) (simp_all add: reverse_def np_split_def rev_map)
next
  show "reverse (Mono [1, 2, 3, 4 :: real]) ''1'' 2 = Inr ([], ArrayValue (Mono [2, 1, 4, 3]))"
    by (simp add: reverse_def np_split_def upt_rec)
qed

theorem reverse_blockwise_witness:
  "(0::int) < 2 \<and> int (len (Stereo [(1, 2), (3, 4), (5, 6), (7, 8 :: real)])) mod 2 = 0
   \<and> (\<exists>y segs. reverse (Stereo [(1, 2), (3, 4), (5, 6), (7, 8 :: real)]) ''2'' 2
                    = Inr ([], ArrayValue y)
         \<and> length segs = 2
         \<and> concat segs = [[1, 2], [3, 4], [5, 6], [7, 8]]
         \<and> frames y = concat (map rev segs))"
  using reverse_blockwise[of 2 "Stereo [(1, 2), (3, 4), (5, 6), (7, 8 :: real)]"]
  by auto

text \<open>
  C5. For a positive \<open>n\<close> that divides the number of frames, reversing twice with the same
  subdivision gives the original array back.
\<close>

theorem reverse_involution:
  assumes "0 < n" "int (len x) mod n = 0"
  shows "\<exists>y. reverse x (tag x) n = Inr ([], ArrayValue y)
           \<and> reverse y (tag x) n = Inr ([], ArrayValue x)"
proof (cases x)
  case (Mono xs)
  let ?ys = "concat (map rev (np_split xs (nat n)))"
  from assms have k: "0 < nat n" "nat n dvd length xs"
    using mod_zero_nat_dvd[of n "len x"] Mono by simp_all
  have l: "length ?ys = length xs"
    using k by (simp add: length_concat_rev concat_np_split)
  have "reverse (Mono ?ys) (tag (Mono ?ys)) n = Inr ([], ArrayValue (Mono xs))"
    using reverse_divisible[of n "Mono ?ys"] assms Mono l reverse_frames_twice[OF k] by simp
  then show ?thesis
    using reverse_divisible[of n x] assms Mono by simp
next
  case (Stereo fs)
  let ?ys = "concat (map rev (np_split fs (nat n)))"
  from assms have k: "0 < nat n" "nat n dvd length fs"
    using mod_zero_nat_dvd[of n "len x"] Stereo by simp_all
  have l: "length ?ys = length fs"
    using k by (simp add: length_concat_rev concat_np_split)
  have "reverse (Stereo ?ys) (tag (Stereo ?ys)) n = Inr ([], ArrayValue (Stereo fs))"
    using reverse_divisible[of n "Stereo ?ys"] assms Stereo l reverse_frames_twice[OF k] by simp
  then show ?thesis
    using reverse_divisible[of n x] assms Stereo by simp
qed

theorem reverse_involution_witness:
  "(0::int) < 3 \<and> int (len (Mono [1, 2, 3, 4, 5, 6 :: real])) mod 3 = 0
   \<and> (\<exists>y. reverse (Mono [1, 2, 3, 4, 5, 6 :: real]) ''1'' 3 = Inr ([], ArrayValue y)
          \<and> reverse y ''1'' 3 = Inr ([], ArrayValue (Mono [1, 2, 3, 4, 5, 6])))"
  using reverse_involution[of 3 "Mono [1, 2, 3, 4, 5, 6 :: real]"]
  by simp

text \<open>
  C7 as claimed: when the number of frames is not a multiple of the positive \<open>n\<close>, reverse
  fails with an error value and signals nothing through the console or through \<open>None\<close>.
  The code does the opposite at \<open>reverse([1,2,3], '1', 2)\<close>: no exception is raised, one
  line is printed and \<open>None\<close> is returned.
\<close>

theorem reverse_indivisible_counterexample:
  "\<not> isl (reverse (Mono [1, 2, 3 :: real]) ''1'' 2)
   \<and> reverse (Mono [1, 2, 3 :: real]) ''1'' 2
       = Inr ([''Error: array size not divisible by subdivision.''], NoneValue)"
  by (simp add: reverse_def)

text \<open>
  C7 as amended: for every array and every positive \<open>n\<close> that does not divide the number
  of frames, whatever the channel tag, reverse raises no exception, prints the single line
  \<open>Error: array size not divisible by subdivision.\<close> and returns \<open>None\<close>.
\<close>

theorem reverse_indivisible_prints:
  assumes "0 < n" "int (len x) mod n \<noteq> 0"
  shows "reverse x channels n
           = Inr ([''Error: array size not divisible by subdivision.''], NoneValue)"
  using assms by (simp add: reverse_def)

theorem reverse_indivisible_prints_witness:
  "(0::int) < 2 \<and> int (len (Stereo [(1, 2), (3, 4), (5, 6 :: real)])) mod 2 \<noteq> 0
   \<and> reverse (Stereo [(1, 2), (3, 4), (5, 6 :: real)]) ''2'' 2
       = Inr ([''Error: array size not divisible by subdivision.''], NoneValue)"
  using reverse_indivisible_prints[of 2 "Stereo [(1, 2), (3, 4), (5, 6 :: real)]" "''2''"]
  by simp

section \<open>Properties of trim\<close>

text \<open>
  C9 as claimed: a sample counts as non-silent exactly when its absolute value exceeds
  the smallest positive double. The double \<open>2^-60\<close> exceeds the smallest positive double,
  and the mask of the code is false on it.
\<close>

theorem mask_smallest_double_counterexample:
  "mask_sample (1 / 2 ^ 60) \<noteq> (\<bar>1 / 2 ^ 60\<bar> > smallest_positive_double)"
  by (simp add: mask_sample_def epsilon_def smallest_positive_double_def)

text \<open>
  C9 as amended: a sample is silent if and only if its absolute value does not exceed
  Epsilon, where Epsilon is the machine epsilon of doubles \<open>2^-52\<close> (the gap between 1.0 and
  the next double), which lies above the smallest positive double; the non-silence mask
  is true exactly at the samples whose absolute value exceeds that Epsilon.
\<close>

theorem mask_threshold:
  "(mask_sample v \<longleftrightarrow> \<not> \<bar>v\<bar> \<le> epsilon)
   \<and> samples (mask array) = map (\<lambda>v. \<bar>v\<bar> > epsilon) (samples array)
   \<and> epsilon = 1 / 2 ^ 52
   \<and> smallest_positive_double < epsilon"
proof -
  have "samples (mask array) = map (\<lambda>v. \<bar>v\<bar> > epsilon) (samples array)"
  proof (cases array)
    case (Mono xs)
    then show ?thesis by (simp add: mask_def mask_sample_def)
  next
    case (Stereo fs)
    have "concat (map (\<lambda>(l, r). [l, r]) (map (map_prod mask_sample mask_sample) fs))
          = map mask_sample (concat (map (\<lambda>(l, r). [l, r]) fs))"
      by (induction fs) auto
    then show ?thesis using Stereo by (simp add: mask_def mask_sample_def)
  qed
  then show ?thesis
    by (auto simp: mask_sample_def epsilon_def smallest_positive_double_def)
qed

text \<open>
  C1. The claim asks that an array with signal in at least one channel is cropped from the
  earliest to the latest frame that carries signal in any channel, also when one stereo
  channel is silent throughout. In the code the silent channel contributes the marker
  \<open>-1\<close> to both \<open>np.amin\<close> and \<open>np.amax\<close>, so the slice starts at the last frame:
  \<open>[[1,0],[0,0]]\<close>, whose only signal is in frame 0, is trimmed to nothing where the
  crop is \<open>[[1,0]]\<close>, and \<open>[[1,0],[1,0]]\<close> loses its first frame.
\<close>

theorem trim_silent_channel_drops_signal:
  "trim (Stereo [(1, 0), (0, 0)]) = Inr (Stereo [])
   \<and> crop (Stereo [(1, 0), (0, 0)]) (earliest_signal (Stereo [(1, 0), (0, 0)]))
        (latest_signal (Stereo [(1, 0), (0, 0)])) = Stereo [(1, 0)]
   \<and> trim (Stereo [(1, 0), (1, 0)]) = Inr (Stereo [(1, 0)])
   \<and> crop (Stereo [(1, 0), (1, 0)]) (earliest_signal (Stereo [(1, 0), (1, 0)]))
        (latest_signal (Stereo [(1, 0), (1, 0)])) = Stereo [(1, 0), (1, 0)]"
  by (simp add: trim_def mask_def mask_sample_def epsilon_def first_nonzero_def last_nonzero_def
      np_any_def slice_index_def slice_list_def earliest_signal_def latest_signal_def
      nonsilent_frame_def)

text \<open>
  C10 as claimed: every array whose samples are all silent is trimmed to an empty array.
  The array without frames has only silent samples, and on it \<open>argmax\<close> raises
  \<open>ValueError\<close>.
\<close>

theorem trim_empty_counterexample:
  "list_all (\<lambda>v. \<not> mask_sample v) (samples (Mono []))
   \<and> trim (Mono []) = Inl ValueError"
  by (simp add: trim_def mask_def first_nonzero_def)

lemma silent_column:
  assumes "\<forall>v\<in>set xs. \<not> mask_sample v"
  shows "\<not> np_any (map mask_sample xs)"
  using assms by (simp add: np_any_def list_ex_iff)

lemma slice_list_sentinels:
  "slice_list xs (- 1) 0 = []"
  by (simp add: slice_list_def slice_index_def)

text \<open>
  C10 as amended: for every array with at least one frame in which every sample of every
  channel is silent, the first and the last boundary index of each channel are the
  marker \<open>-1\<close>, and trim returns an empty array of the same shape.
\<close>

theorem trim_all_silent:
  assumes "0 < len array" "\<forall>v\<in>set (samples array). \<not> mask_sample v"
  shows "first_nonzero array (mask array) (- 1) = Inr (replicate (length (columns array)) (- 1))
       \<and> last_nonzero array (mask array) (- 1) = Inr (replicate (length (columns array)) (- 1))
       \<and> (\<exists>y. trim array = Inr y \<and> len y = 0 \<and> tag y = tag array)"
proof (cases array)
  case (Mono xs)
  have s: "\<not> np_any (map mask_sample xs)"
    using assms(2) Mono by (intro silent_column) simp
  have f: "first_nonzero array (mask array) (- 1) = Inr [- 1]"
    and l: "last_nonzero array (mask array) (- 1) = Inr [- 1]"
    using assms(1) Mono s by (simp_all add: first_nonzero_def last_nonzero_def mask_def)
  have "trim array = Inr (Mono [])"
    using f l Mono by (simp add: trim_def slice_list_sentinels)
  then show ?thesis using f l Mono by simp
next
  case (Stereo fs)
  have "\<forall>v\<in>set (map fst fs). \<not> mask_sample v" "\<forall>v\<in>set (map snd fs). \<not> mask_sample v"
    using assms(2) Stereo by force+
  then have s: "\<not> np_any (map mask_sample (map fst fs))" "\<not> np_any (map mask_sample (map snd fs))"
    by (simp_all only: silent_column not_False_eq_True)
  have f: "first_nonzero array (mask array) (- 1) = Inr [- 1, - 1]"
    and l: "last_nonzero array (mask array) (- 1) = Inr [- 1, - 1]"
    using assms(1) Stereo s
    by (simp_all add: first_nonzero_def last_nonzero_def mask_def comp_def)
  have "trim array = Inr (Stereo [])"
    using f l Stereo by (simp add: trim_def slice_list_sentinels)
  then show ?thesis using f l Stereo by simp
qed

theorem trim_all_silent_witness:
  "0 < len (Stereo [(0, 0), (0, 1 / 2 ^ 60), (0, 0 :: real)])
   \<and> list_all (\<lambda>v. \<not> mask_sample v) (samples (Stereo [(0, 0), (0, 1 / 2 ^ 60), (0, 0)]))
   \<and> first_nonzero (Stereo [(0, 0), (0, 1 / 2 ^ 60), (0, 0)])
        (mask (Stereo [(0, 0), (0, 1 / 2 ^ 60), (0, 0)])) (- 1) = Inr [- 1, - 1]
   \<and> last_nonzero (Stereo [(0, 0), (0, 1 / 2 ^ 60), (0, 0)])
        (mask (Stereo [(0, 0), (0, 1 / 2 ^ 60), (0, 0)])) (- 1) = Inr [- 1, - 1]
   \<and> (\<exists>y. trim (Stereo [(0, 0), (0, 1 / 2 ^ 60), (0, 0)]) = Inr y \<and> len y = 0)"
proof -
  have h: "\<forall>v\<in>set (samples (Stereo [(0, 0), (0, 1 / 2 ^ 60), (0, 0 :: real)])). \<not> mask_sample v"
    by (simp add: mask_sample_def epsilon_def)
  show ?thesis
    using trim_all_silent[OF _ h] h by (auto simp: list_all_iff)
qed

text \<open>
  When every channel carries signal somewhere, no marker enters the minimum or the
  maximum, and trim is the crop of the specification.
\<close>

lemma argmax_first_True:
  assumes "np_any bs"
  shows "argmax bs = length (takeWhile Not bs)"
  using assms
proof (induction bs)
  case Nil
  then show ?case by (simp add: np_any_def)
next
  case (Cons b bs)
  show ?case
  proof (cases b)
    case True
    then show ?thesis by (simp add: list_all_iff)
  next
    case False
    with Cons.prems have any: "np_any bs" by (simp add: np_any_def)
    then have "\<not> list_all (\<lambda>y. y \<le> False) bs"
      by (auto simp: np_any_def list_all_iff list_ex_iff)
    with False Cons.IH[OF any] show ?thesis by simp
  qed
qed

lemma takeWhile_conj_length:
  "length (takeWhile (\<lambda>x. P x \<and> Q x) xs)
     = min (length (takeWhile P xs)) (length (takeWhile Q xs))"
  by (induction xs) auto

lemma takeWhile_lt_length:
  assumes "\<exists>x\<in>set xs. \<not> P x"
  shows "length (takeWhile P xs) < length xs"
  using assms by (induction xs) auto

lemma np_any_rev: "np_any (rev c) = np_any c"
  by (simp add: np_any_def list_ex_iff)

lemma np_any_True: "np_any c \<longleftrightarrow> (\<exists>b\<in>set c. \<not> \<not> b)"
  by (simp add: np_any_def list_ex_iff)

lemma column_first:
  assumes "np_any c"
  shows "argmax c = length (takeWhile Not c)" "length (takeWhile Not c) < length c"
  using assms argmax_first_True[OF assms] takeWhile_lt_length[of c Not]
  by (simp_all add: np_any_True)

lemma column_last:
  assumes "np_any c"
  shows "int (length c) - int (argmax (rev c)) - 1
           = int (length c - 1 - length (takeWhile Not (rev c)))"
proof -
  have r: "np_any (rev c)" using assms by (simp only: np_any_rev)
  have "length (takeWhile Not (rev c)) < length c"
    using column_first(2)[OF r] by simp
  then show ?thesis using column_first(1)[OF r] by simp
qed

lemma slice_list_inside:
  assumes "i \<le> length xs" "j < length xs"
  shows "slice_list xs (int i) (int j + 1) = take (Suc j - i) (drop i xs)"
proof -
  have "nat (int j + 1) = Suc j" by simp
  then show ?thesis
    using assms by (simp add: slice_list_def slice_index_def Let_def del: of_nat_Suc)
qed

lemma takeWhile_Not_map: "takeWhile Not (map f xs) = map f (takeWhile (\<lambda>x. \<not> f x) xs)"
  by (simp add: takeWhile_map comp_def)

lemma trim_mono_signal:
  assumes "np_any (map mask_sample xs)"
  shows "trim (Mono xs) = Inr (crop (Mono xs) (earliest_signal (Mono xs)) (latest_signal (Mono xs)))"
proof -
  let ?c = "map mask_sample xs"
  let ?f = "length (takeWhile (\<lambda>x. \<not> mask_sample x) xs)"
  let ?l = "length xs - 1 - length (takeWhile (\<lambda>x. \<not> mask_sample x) (rev xs))"
  have ne: "xs \<noteq> []" using assms by (auto simp: np_any_def)
  have f: "int (argmax ?c) = int ?f" "?f < length xs"
    using column_first[OF assms] by (simp_all add: takeWhile_Not_map)
  have l: "int (length xs) - int (argmax (rev ?c)) - 1 = int ?l"
    using column_last[OF assms] by (simp add: rev_map takeWhile_Not_map)
  have lt: "?l < length xs" using ne by (cases xs) simp_all
  have e: "earliest_signal (Mono xs) = ?f"
    by (simp add: earliest_signal_def takeWhile_map comp_def nonsilent_frame_def)
  have la: "latest_signal (Mono xs) = ?l"
    by (simp add: latest_signal_def rev_map takeWhile_map comp_def nonsilent_frame_def)
  have "trim (Mono xs) = Inr (Mono (slice_list xs (int ?f) (int ?l + 1)))"
    using assms ne f(1) l by (simp add: trim_def mask_def first_nonzero_def last_nonzero_def)
  also have "slice_list xs (int ?f) (int ?l + 1) = take (Suc ?l - ?f) (drop ?f xs)"
    using f(2) lt by (intro slice_list_inside) simp_all
  finally show ?thesis by (simp only: e la crop.simps)
qed

lemma len_mask: "len (mask array) = len array"
  by (cases array) (simp_all add: mask_def)

lemma columns_mask_stereo:
  "columns (mask (Stereo fs))
     = [map (\<lambda>p. mask_sample (fst p)) fs, map (\<lambda>p. mask_sample (snd p)) fs]"
  by (simp add: mask_def comp_def)

lemma latest_of_two:
  assumes "a < n" "b < n"
  shows "max (n - 1 - a) (n - 1 - b) = n - 1 - min a (b::nat)"
  using assms by (auto simp add: max_def min_def)

lemma trim_stereo_signal:
  assumes "np_any (map (\<lambda>p. mask_sample (fst p)) fs)" "np_any (map (\<lambda>p. mask_sample (snd p)) fs)"
  shows "trim (Stereo fs)
           = Inr (crop (Stereo fs) (earliest_signal (Stereo fs)) (latest_signal (Stereo fs)))"
proof -
  let ?cL = "map (\<lambda>p. mask_sample (fst p)) fs" and ?cR = "map (\<lambda>p. mask_sample (snd p)) fs"
  let ?fL = "length (takeWhile (\<lambda>p. \<not> mask_sample (fst p)) fs)"
  let ?fR = "length (takeWhile (\<lambda>p. \<not> mask_sample (snd p)) fs)"
  let ?aL = "length (takeWhile (\<lambda>p. \<not> mask_sample (fst p)) (rev fs))"
  let ?aR = "length (takeWhile (\<lambda>p. \<not> mask_sample (snd p)) (rev fs))"
  let ?n = "length fs"
  let ?f = "min ?fL ?fR" and ?l = "?n - 1 - min ?aL ?aR"
  have ne: "fs \<noteq> []" using assms(1) by (auto simp: np_any_def)
  have fL: "int (argmax ?cL) = int ?fL" "?fL < ?n"
    using column_first[OF assms(1)] by (simp_all add: takeWhile_Not_map)
  have fR: "int (argmax ?cR) = int ?fR" "?fR < ?n"
    using column_first[OF assms(2)] by (simp_all add: takeWhile_Not_map)
  have lL: "int ?n - int (argmax (rev ?cL)) - 1 = int (?n - 1 - ?aL)"
    using column_last[OF assms(1)] by (simp add: rev_map takeWhile_Not_map)
  have lR: "int ?n - int (argmax (rev ?cR)) - 1 = int (?n - 1 - ?aR)"
    using column_last[OF assms(2)] by (simp add: rev_map takeWhile_Not_map)
  have rL: "np_any (rev ?cL)" using assms(1) by (simp only: np_any_rev)
  have rR: "np_any (rev ?cR)" using assms(2) by (simp only: np_any_rev)
  have aL: "?aL < ?n" using column_first(2)[OF rL] by (simp add: rev_map takeWhile_Not_map)
  have aR: "?aR < ?n" using column_first(2)[OF rR] by (simp add: rev_map takeWhile_Not_map)
  have mx: "max (int (?n - 1 - ?aL)) (int (?n - 1 - ?aR)) = int ?l"
    using latest_of_two[OF aL aR] by (simp only: of_nat_max[symmetric])
  have mn: "min (int ?fL) (int ?fR) = int ?f" by simp
  have lt: "?l < ?n" using ne by (cases fs) simp_all
  have e: "earliest_signal (Stereo fs) = ?f"
    by (simp add: earliest_signal_def takeWhile_map comp_def nonsilent_frame_def
        case_prod_beta takeWhile_conj_length)
  have la: "latest_signal (Stereo fs) = ?l"
    by (simp add: latest_signal_def rev_map takeWhile_map comp_def nonsilent_frame_def
        case_prod_beta takeWhile_conj_length)
  have fn: "first_nonzero (Stereo fs) (mask (Stereo fs)) (- 1) = Inr [int ?fL, int ?fR]"
    using assms ne fL(1) fR(1) by (simp add: first_nonzero_def columns_mask_stereo len_mask)
  have ln: "last_nonzero (Stereo fs) (mask (Stereo fs)) (- 1)
              = Inr [int (?n - 1 - ?aL), int (?n - 1 - ?aR)]"
    using assms ne lL lR by (simp add: last_nonzero_def columns_mask_stereo len_mask)
  have "trim (Stereo fs)
        = Inr (Stereo (slice_list fs (min (int ?fL) (int ?fR))
             (max (int (?n - 1 - ?aL)) (int (?n - 1 - ?aR)) + 1)))"
    by (simp add: trim_def Let_def fn ln min.commute max.commute)
  also have "\<dots> = Inr (Stereo (slice_list fs (int ?f) (int ?l + 1)))"
    by (simp only: mx mn)
  also have "slice_list fs (int ?f) (int ?l + 1) = take (Suc ?l - ?f) (drop ?f fs)"
    using fL(2) lt by (intro slice_list_inside) simp_all
  finally show ?thesis by (simp only: e la crop.simps)
qed

lemma trim_crops_signal:
  assumes "list_all np_any (columns (mask array))"
  shows "trim array = Inr (crop array (earliest_signal array) (latest_signal array))"
proof (cases array)
  case (Mono xs)
  with assms have "np_any (map mask_sample xs)" by (simp add: mask_def)
  then show ?thesis unfolding Mono by (rule trim_mono_signal)
next
  case (Stereo fs)
  with assms have "np_any (map (\<lambda>p. mask_sample (fst p)) fs)"
      "np_any (map (\<lambda>p. mask_sample (snd p)) fs)"
    by (simp_all add: columns_mask_stereo)
  then show ?thesis unfolding Stereo by (rule trim_stereo_signal)
qed

section \<open>Properties of midside\<close>



section \<open>Properties of normalize\<close>

lemma samples_Stereo_map:
  "samples (Stereo (map (map_prod f f) fs)) = map f (samples (Stereo fs))"
  by (induction fs) (simp_all add: case_prod_beta)

lemma samples_map: "samples (map_ndarray f x) = map f (samples x)"
  by (cases x) (simp_all only: ndarray.map samples_Stereo_map samples.simps(1))

lemma fold_max_Max: "fold max ys (0::real) = Max (insert 0 (set ys))"
proof -
  have "fold max ys 0 = Max (set (0 # ys))" by (rule Max.set_eq_fold[symmetric])
  also have "set (0 # ys) = insert 0 (set ys)" by (rule list.set(2))
  finally show ?thesis .
qed

lemma peak_eq: "peak x = Max (insert 0 (abs ` set (samples x)))"
  by (simp only: peak_def fold_max_Max set_map)

lemma Max_scaled:
  assumes "0 < (p::real)" "finite A" "A \<noteq> {}"
  shows "Max ((\<lambda>a. a / p) ` A) = Max A / p"
proof -
  have "mono (\<lambda>a. a / p)" using assms(1) by (simp add: mono_def divide_right_mono)
  from mono_Max_commute[OF this assms(2,3)] show ?thesis by (rule sym)
qed

lemma peak_nonneg: "0 \<le> peak x"
proof -
  have "0 \<le> Max (insert 0 (abs ` set (samples x)))"
    by (rule Max_ge) (simp_all only: finite_insert finite_imageI finite_set insertI1)
  then show ?thesis by (simp only: peak_eq)
qed

lemma peak_scaled:
  assumes "peak x \<noteq> 0"
  shows "peak (map_ndarray (\<lambda>v. v / peak x) x) = 1"
proof -
  define p where "p = peak x"
  let ?A = "insert 0 (abs ` set (samples x))"
  have p: "0 < p" using assms peak_nonneg[of x] by (simp add: p_def)
  have A: "Max ?A = p" by (simp only: p_def peak_eq)
  have "peak (map_ndarray (\<lambda>v. v / p) x) = Max (insert 0 (abs ` set (map (\<lambda>v. v / p) (samples x))))"
    by (simp only: peak_eq samples_map)
  also have "insert 0 (abs ` set (map (\<lambda>v. v / p) (samples x))) = (\<lambda>a. a / p) ` ?A"
    using p by (simp add: image_image abs_divide)
  also have "Max \<dots> = Max ?A / p"
    by (rule Max_scaled[OF p]) simp_all
  also have "\<dots> = 1" using p by (simp only: A) simp
  finally show ?thesis by (simp only: p_def)
qed

lemma peak_Max:
  assumes "samples x \<noteq> []"
  shows "peak x = Max (abs ` set (samples x))"
proof -
  let ?A = "abs ` set (samples x)"
  have fin: "finite ?A" by (rule finite_imageI) (rule finite_set)
  from assms have "set (samples x) \<noteq> {}" by simp
  then have ne: "?A \<noteq> {}" by simp
  have "Max ?A \<in> ?A" by (rule Max_in[OF fin ne])
  then obtain v where "Max ?A = \<bar>v\<bar>" by (rule imageE)
  then have nn: "0 \<le> Max ?A" by simp
  have "peak x = Max (insert 0 ?A)" by (rule peak_eq)
  also have "\<dots> = max 0 (Max ?A)" by (rule Max_insert[OF fin ne])
  also have "\<dots> = Max ?A" using nn by (rule max_absorb2)
  finally show ?thesis .
qed

text \<open>
  C3. normalize takes the peak, the maximum of the absolute values of all samples. With
  peak 0 it returns the input unchanged and the flag \<open>False\<close>; otherwise it returns the
  array divided by the peak and the flag \<open>True\<close>, the output has peak 1, and every output
  sample has the sign of the input sample at the same place.
  \<open>normalize([-50, -25, 0, 25, 50])\<close> is \<open>([-1.0, -0.5, 0.0, 0.5, 1.0], True)\<close>.
\<close>

theorem normalize_contract:
  "(samples x \<noteq> [] \<longrightarrow> peak x = Max (abs ` set (samples x)))
   \<and> (peak x = 0 \<longrightarrow> normalize x = (x, False))
   \<and> (peak x \<noteq> 0 \<longrightarrow>
        normalize x = (map_ndarray (\<lambda>v. v / peak x) x, True)
        \<and> peak (fst (normalize x)) = 1
        \<and> list_all2 (\<lambda>u v. sgn u = sgn v) (samples (fst (normalize x))) (samples x))
   \<and> normalize (Mono [- 50, - 25, 0, 25, 50]) = (Mono [- 1, - 0.5, 0, 0.5, 1], True)"
proof (intro conjI impI)
  assume "samples x \<noteq> []"
  then show "peak x = Max (abs ` set (samples x))" by (rule peak_Max)
next
  assume "peak x = 0"
  then show "normalize x = (x, False)" by (simp add: normalize_def)
next
  assume "peak x \<noteq> 0"
  then show "normalize x = (map_ndarray (\<lambda>v. v / peak x) x, True)" by (simp add: normalize_def)
next
  assume "peak x \<noteq> 0"
  then show "peak (fst (normalize x)) = 1" by (simp add: normalize_def peak_scaled)
next
  assume a: "peak x \<noteq> 0"
  then have p: "0 < peak x" using peak_nonneg[of x] by simp
  have "list_all2 (\<lambda>u v. sgn u = sgn v) (map (\<lambda>v. v / peak x) (samples x)) (samples x)"
    using p by (simp add: list_all2_map1 list_all2_same sgn_divide)
  then show "list_all2 (\<lambda>u v. sgn u = sgn v) (samples (fst (normalize x))) (samples x)"
    using a by (simp add: normalize_def samples_map)
next
  show "normalize (Mono [- 50, - 25, 0, 25, 50]) = (Mono [- 1, - 0.5, 0, 0.5, 1], True)"
    by (simp add: normalize_def peak_def)
qed

theorem normalize_contract_witness:
  "samples (Stereo [(3, - 4), (0, 2 :: real)]) \<noteq> []
   \<and> peak (Stereo [(3, - 4), (0, 2)]) = 4
   \<and> peak (Stereo [(3, - 4), (0, 2)]) \<noteq> 0
   \<and> normalize (Stereo [(3, - 4), (0, 2)]) = (Stereo [(3 / 4, - 1), (0, 1 / 2)], True)
   \<and> peak (fst (normalize (Stereo [(3, - 4), (0, 2)]))) = 1
   \<and> peak (Mono [0, 0]) = 0 \<and> normalize (Mono [0, 0]) = (Mono [0, 0], False)"
proof -
  let ?x = "Stereo [(3, - 4), (0, 2 :: real)]"
  have p: "peak ?x = 4" by (simp add: peak_def)
  then have ne: "peak ?x \<noteq> 0" by simp
  have r: "normalize ?x = (map_ndarray (\<lambda>v. v / peak ?x) ?x, True)"
      "peak (fst (normalize ?x)) = 1"
    using normalize_contract[of ?x, THEN conjunct2, THEN conjunct2, THEN conjunct1] ne
    by blast+
  have m: "map_ndarray (\<lambda>v. v / 4) ?x = Stereo [(3 / 4, - 1), (0, 1 / 2)]" by simp
  have z: "peak (Mono [0, 0]) = 0" by (simp add: peak_def)
  have u: "normalize (Mono [0, 0]) = (Mono [0, 0], False)"
    using normalize_contract[of "Mono [0, 0]", THEN conjunct2, THEN conjunct1] z by blast
  have s: "samples ?x \<noteq> []" by simp
  show ?thesis
    using p ne r(2) z u s r(1)[unfolded p m] by (intro conjI)
qed

end
